theory Spec2Isabelle
  imports Main "HOL-Library.Word"
begin

unbundle bit_operations_syntax

section \<open>Aspen: the subdomain enumeration and the port scan of \<^verbatim>\<open>src/aspen.py\<close>\<close>

text \<open>
  The two methods \<^verbatim>\<open>AspenFramework.enumerate_subdomains\<close> and
  \<^verbatim>\<open>AspenFramework.scan_ports\<close> are embedded as functions of
  \<^item> the parsed command line (\<^verbatim>\<open>self.args\<close>), a record;
  \<^item> the collaborators the methods call (file system, DNS resolver, HTTP client, scapy's
    \<^verbatim>\<open>sr1\<close>, and the order in which the thread pool lets the submitted tasks take
    effect), a record of functions;
  \<^item> the method's own argument.
  They return the method's result, or the exception that leaves the method, together with
  the trace of everything the run did to the outside world (console lines, DNS queries,
  HTTP requests, packets sent, files written).

  Strings are lists of \<^typ>\<open>char\<close>; a character stands for the Unicode code point of the
  same number (U+0000 to U+00FF), and \<^verbatim>\<open>str.lower\<close> and \<^verbatim>\<open>str.strip\<close> are
  Python's on that range.
\<close>

subsection \<open>Module constants\<close>

definition RESULTS_DIR :: string where
  "RESULTS_DIR = ''results''"

definition DEFAULT_WORDLIST :: string where
  "DEFAULT_WORDLIST = ''wordlists/subdomains.txt''"

definition DEFAULT_THREADS :: int where
  "DEFAULT_THREADS = 10"

definition TIMEOUT :: nat where
  "TIMEOUT = 5"

subsection \<open>Command line, collaborators, trace\<close>

record args =
  threads :: "int option"
  silent :: bool
  verbose :: bool
  save :: bool
  top_ports :: bool
  wordlist :: "string option"

datatype py_error = ValueError | OSError

text \<open>What \<^verbatim>\<open>os.path.exists\<close> and \<^verbatim>\<open>open(path, 'r')\<close> find at a path: nothing,
  something that exists and cannot be opened for reading, or a text file, given by its
  lines.\<close>

datatype file_node = Absent | Unreadable | Lines "string list"

text \<open>\<^verbatim>\<open>dns.resolver.resolve(name, 'A')\<close>: an exception, or the answer's records.\<close>

datatype dns_answer = DnsRaises | Answers "string list"

text \<open>\<^verbatim>\<open>requests.get\<close>: an exception, or a response with its status code and what
  \<^verbatim>\<open>response.json()\<close> does: raise, or give the records. A record has a string under
  \<^verbatim>\<open>'name_value'\<close>, or reading that string from it raises.\<close>

datatype entry = NameValue string | BadEntry

datatype json = JsonError | Records "entry list"

datatype http_result = HttpRaises | Response int json

text \<open>\<^verbatim>\<open>sr1\<close>: an exception, \<^verbatim>\<open>None\<close>, or a reply packet, which has a TCP layer with
  its flags field or has none.\<close>

datatype packet = TcpReply "9 word" | NonTcpReply

datatype sr1_result = Sr1Raises | NoReply | Reply packet

record env =
  fs :: "string \<Rightarrow> file_node"
  writable :: "string \<Rightarrow> bool"
  resolve :: "string \<Rightarrow> dns_answer"
  http_get :: "string \<Rightarrow> http_result"
  sr1 :: "string \<Rightarrow> nat \<Rightarrow> string \<Rightarrow> nat \<Rightarrow> sr1_result"
  schedule :: "nat \<Rightarrow> nat list"

datatype event =
    Print string string
  | PrintTable "(nat \<times> string) list"
  | DnsQuery string
  | HttpGet string
  | Sr1 string nat string nat
  | WriteFile string

subsection \<open>Python built-ins\<close>

definition isspace :: "char \<Rightarrow> bool" where
  "isspace c = ((of_char c :: nat) \<in> {9, 10, 11, 12, 13, 28, 29, 30, 31, 32, 133, 160})"

definition strip :: "string \<Rightarrow> string" where
  "strip s = rev (dropWhile isspace (rev (dropWhile isspace s)))"

definition lower_char :: "char \<Rightarrow> char" where
  "lower_char c =
     (let n = (of_char c :: nat)
      in if (65 \<le> n \<and> n \<le> 90) \<or> (192 \<le> n \<and> n \<le> 222 \<and> n \<noteq> 215)
         then char_of (n + 32) else c)"

definition lower :: "string \<Rightarrow> string" where
  "lower s = map lower_char s"

definition endswith :: "string \<Rightarrow> string \<Rightarrow> bool" where
  "endswith s suffix =
     (length suffix \<le> length s \<and> drop (length s - length suffix) s = suffix)"

text \<open>\<^verbatim>\<open>d[k] = v\<close> on a dict, kept as the list of its items in insertion order.\<close>

fun dict_set :: "'k \<Rightarrow> 'v \<Rightarrow> ('k \<times> 'v) list \<Rightarrow> ('k \<times> 'v) list" where
  "dict_set k v [] = [(k, v)]"
| "dict_set k v ((k', v') # d) =
     (if k' = k then (k', v) # d else (k', v') # dict_set k v d)"

text \<open>\<^verbatim>\<open>x or default\<close> on an optional integer and on an optional string.\<close>

definition or_int :: "int option \<Rightarrow> int \<Rightarrow> int" where
  "or_int x d = (case x of None \<Rightarrow> d | Some n \<Rightarrow> if n = 0 then d else n)"

definition or_str :: "string option \<Rightarrow> string \<Rightarrow> string" where
  "or_str x d = (case x of None \<Rightarrow> d | Some s \<Rightarrow> if s = [] then d else s)"

text \<open>
  \<^verbatim>\<open>ThreadPoolExecutor(max_workers=n)\<close> with one task submitted per element of a list,
  waited for with \<^verbatim>\<open>as_completed\<close>. The constructor raises \<^verbatim>\<open>ValueError\<close> when
  \<open>n \<le> 0\<close>. Each task of the two callers touches the shared state in one step (a
  \<^verbatim>\<open>set.add\<close>, a dict store), so a run is the tasks taking effect one after the other
  in some order; \<open>order\<close> lists the indices of the tasks in that order. The progress
  bar's updates are display only and are left out.
\<close>

definition ThreadPoolExecutor ::
  "int \<Rightarrow> nat list \<Rightarrow> ('a \<Rightarrow> 's \<Rightarrow> 's) \<Rightarrow> 'a list \<Rightarrow> 's \<Rightarrow> py_error + 's" where
  "ThreadPoolExecutor max_workers order fn xs s =
     (if max_workers \<le> 0 then Inl ValueError
      else Inr (fold (\<lambda>i. fn (xs ! i)) order s))"

subsection \<open>\<^verbatim>\<open>log\<close> and \<^verbatim>\<open>save_results\<close>\<close>

definition log :: "args \<Rightarrow> string \<Rightarrow> string \<Rightarrow> event list \<Rightarrow> event list" where
  "log a message level w =
     (if silent a then w
      else if level = ''error'' then w @ [Print ''[ERROR]'' message]
      else if level = ''success'' then w @ [Print ''[SUCCESS]'' message]
      else if level = ''warning'' then w @ [Print ''[WARNING]'' message]
      else if verbose a then w @ [Print ''[INFO]'' message]
      else w)"

text \<open>The data written does not reach any returned value; only the path is traced.
  \<^verbatim>\<open>open(filepath, 'w')\<close> raises where the path cannot be written.\<close>

definition save_results ::
  "env \<Rightarrow> args \<Rightarrow> string \<Rightarrow> event list \<Rightarrow> (py_error + unit) \<times> event list" where
  "save_results e a filename w =
     (if \<not> save a then (Inr (), w)
      else let filepath = RESULTS_DIR @ ''/'' @ filename
           in if \<not> writable e filepath then (Inl OSError, w)
              else (Inr (),
                    log a (''Results saved to '' @ filepath) ''success''
                      (w @ [WriteFile filepath])))"

subsection \<open>\<^verbatim>\<open>enumerate_subdomains\<close>\<close>

definition check_subdomain ::
  "env \<Rightarrow> string \<Rightarrow> string \<Rightarrow> string set \<times> event list \<Rightarrow> string set \<times> event list" where
  "check_subdomain e domain sub = (\<lambda>(subdomains, w).
     let name = sub @ ''.'' @ domain;
         w' = w @ [DnsQuery name]
     in case resolve e name of
          DnsRaises \<Rightarrow> (subdomains, w')
        | Answers answers \<Rightarrow> (fold (\<lambda>rdata S. insert name S) answers subdomains, w'))"

text \<open>The wordlist block: \<^verbatim>\<open>if os.path.exists(wordlist): ...\<close>.\<close>

definition wordlist_based ::
  "env \<Rightarrow> args \<Rightarrow> string \<Rightarrow> int \<Rightarrow> string set \<times> event list
     \<Rightarrow> (py_error + string set) \<times> event list" where
  "wordlist_based e a domain n = (\<lambda>(subdomains, w).
     let wordlist = or_str (wordlist a) DEFAULT_WORDLIST
     in case fs e wordlist of
          Absent \<Rightarrow> (Inr subdomains, w)
        | Unreadable \<Rightarrow> (Inl OSError, w)
        | Lines f \<Rightarrow>
            let subs = map strip (filter (\<lambda>line. strip line \<noteq> []) f)
            in (case ThreadPoolExecutor n (schedule e (length subs))
                       (check_subdomain e domain) subs (subdomains, w) of
                  Inl err \<Rightarrow> (Inl err, w)
                | Inr (subdomains', w') \<Rightarrow> (Inr subdomains', w')))"

text \<open>The loop over the records of the response; the flag is \<open>False\<close> when reading a
  record raised, which leaves the loop with the names added so far.\<close>

fun add_entries :: "string \<Rightarrow> entry list \<Rightarrow> string set \<Rightarrow> bool \<times> string set" where
  "add_entries domain [] subdomains = (True, subdomains)"
| "add_entries domain (BadEntry # data) subdomains = (False, subdomains)"
| "add_entries domain (NameValue v # data) subdomains =
     (let sub = lower v
      in add_entries domain data
           (if endswith sub (''.'' @ domain) then insert sub subdomains else subdomains))"

text \<open>The API block: \<^verbatim>\<open>try: response = requests.get(...) ... except: self.log(...)\<close>.\<close>

definition api_fallback ::
  "env \<Rightarrow> args \<Rightarrow> string \<Rightarrow> string set \<times> event list \<Rightarrow> string set \<times> event list" where
  "api_fallback e a domain = (\<lambda>(subdomains, w).
     let url = ''https://crt.sh/?q='' @ domain @ ''&output=json'';
         w1 = w @ [HttpGet url]
     in case http_get e url of
          HttpRaises \<Rightarrow> (subdomains, log a ''API fallback failed'' ''warning'' w1)
        | Response status_code body \<Rightarrow>
            if status_code = 200 then
              (case body of
                 JsonError \<Rightarrow> (subdomains, log a ''API fallback failed'' ''warning'' w1)
               | Records data \<Rightarrow>
                   (case add_entries domain data subdomains of
                      (True, subdomains') \<Rightarrow> (subdomains', w1)
                    | (False, subdomains') \<Rightarrow>
                        (subdomains', log a ''API fallback failed'' ''warning'' w1)))
            else (subdomains, w1))"

definition enumerate_subdomains ::
  "env \<Rightarrow> args \<Rightarrow> string \<Rightarrow> (py_error + string set) \<times> event list" where
  "enumerate_subdomains e a domain =
     (let w0 = log a ''Starting subdomain enumeration...'' ''info'' [];
          n = or_int (threads a) DEFAULT_THREADS
      in case wordlist_based e a domain n ({}, w0) of
           (Inl err, w1) \<Rightarrow> (Inl err, w1)
         | (Inr subdomains, w1) \<Rightarrow>
             (case api_fallback e a domain (subdomains, w1) of
                (subdomains', w2) \<Rightarrow>
                  (case save_results e a (''subdomains_'' @ domain @ ''.txt'') w2 of
                     (Inl err, w3) \<Rightarrow> (Inl err, w3)
                   | (Inr u, w3) \<Rightarrow> (Inr subdomains', w3))))"

subsection \<open>\<^verbatim>\<open>scan_ports\<close>\<close>

text \<open>\<^verbatim>\<open>resp and resp.haslayer(TCP) and resp[TCP].flags == 0x12\<close>, and
  \<^verbatim>\<open>banner and banner.haslayer(TCP)\<close>, on what \<^verbatim>\<open>sr1\<close> returned.\<close>

fun syn_ack :: "sr1_result \<Rightarrow> bool" where
  "syn_ack (Reply (TcpReply flags)) = (flags = 0x12)"
| "syn_ack _ = False"

fun tcp_layer :: "sr1_result \<Rightarrow> bool" where
  "tcp_layer (Reply (TcpReply flags)) = True"
| "tcp_layer _ = False"

definition scan_port ::
  "env \<Rightarrow> string \<Rightarrow> nat \<Rightarrow> (nat \<times> string) list \<times> event list
     \<Rightarrow> (nat \<times> string) list \<times> event list" where
  "scan_port e target port = (\<lambda>(open_ports, w).
     let w1 = w @ [Sr1 target port ''S'' TIMEOUT]
     in case sr1 e target port ''S'' TIMEOUT of
          Sr1Raises \<Rightarrow> (open_ports, w1)
        | resp \<Rightarrow>
            if syn_ack resp then
              let w2 = w1 @ [Sr1 target port ''A'' 1];
                  service = (case sr1 e target port ''A'' 1 of
                               Sr1Raises \<Rightarrow> ''unknown''
                             | banner \<Rightarrow>
                                 if tcp_layer banner then ''detected'' else ''unknown'')
              in (dict_set port service open_ports, w2)
            else (open_ports, w1))"

definition port_range :: "args \<Rightarrow> nat list" where
  "port_range a = (if top_ports a then [1..<1025] else [0..<65536])"

definition scan_ports ::
  "env \<Rightarrow> args \<Rightarrow> string \<Rightarrow> (py_error + (nat \<times> string) list) \<times> event list" where
  "scan_ports e a target =
     (let w0 = log a ''Starting port scan...'' ''info'' [];
          ports = port_range a
      in case ThreadPoolExecutor (or_int (threads a) DEFAULT_THREADS)
                (schedule e (length ports)) (scan_port e target) ports ([], w0) of
           Inl err \<Rightarrow> (Inl err, w0)
         | Inr (open_ports, w1) \<Rightarrow>
             (case save_results e a (''ports_'' @ target @ ''.json'')
                     (w1 @ [PrintTable open_ports]) of
                (Inl err, w2) \<Rightarrow> (Inl err, w2)
              | (Inr u, w2) \<Rightarrow> (Inr open_ports, w2)))"

section \<open>Notions used to state the properties\<close>

text \<open>TCP header flag bits, as the \<^verbatim>\<open>flags\<close> field of scapy's TCP layer numbers them;
  \<^verbatim>\<open>0x12\<close> is SYN and ACK together.\<close>

definition SYN :: "9 word" where
  "SYN = 0x02"

definition RST :: "9 word" where
  "RST = 0x04"

definition ACK :: "9 word" where
  "ACK = 0x10"

text \<open>The pool runs every submitted task exactly once: the order of a run of \<open>n\<close> tasks
  is a permutation of their indices.\<close>

definition valid_schedule :: "env \<Rightarrow> nat \<Rightarrow> bool" where
  "valid_schedule e n = (distinct (schedule e n) \<and> set (schedule e n) = {0..<n})"

text \<open>The pool can be built (the limit in force is positive), and the results file can
  be written whenever \<^verbatim>\<open>--save\<close> asks for it: the conditions under which no exception
  leaves the two methods.\<close>

definition pool_ok :: "args \<Rightarrow> bool" where
  "pool_ok a = (0 < or_int (threads a) DEFAULT_THREADS)"

definition save_ok :: "env \<Rightarrow> args \<Rightarrow> string \<Rightarrow> bool" where
  "save_ok e a filename = (\<not> save a \<or> writable e (RESULTS_DIR @ ''/'' @ filename))"

text \<open>The probes of a trace: the DNS queries and the packets sent.\<close>

fun is_probe :: "event \<Rightarrow> bool" where
  "is_probe (DnsQuery name) = True"
| "is_probe (Sr1 dst dport flags timeout) = True"
| "is_probe ev = False"

definition probes :: "event list \<Rightarrow> event list" where
  "probes w = filter is_probe w"

text \<open>The service label the code computes for an open port.\<close>

definition service :: "env \<Rightarrow> string \<Rightarrow> nat \<Rightarrow> string" where
  "service e t p = (if tcp_layer (sr1 e t p ''A'' 1) then ''detected'' else ''unknown'')"

subsection \<open>Concrete runs\<close>

definition args_top :: args where
  "args_top = \<lparr>threads = None, silent = False, verbose = False, save = False,
                top_ports = True, wordlist = None\<rparr>"

text \<open>Ports 80 and 443 answer SYN with SYN-ACK; nothing else answers. The pool finishes
  the tasks in the reverse of the order of submission.\<close>

definition env_B :: env where
  "env_B = \<lparr>fs = (\<lambda>path. Absent), writable = (\<lambda>path. True),
             resolve = (\<lambda>name. DnsRaises), http_get = (\<lambda>url. HttpRaises),
             sr1 = (\<lambda>dst dport flags timeout.
                      if flags = ''S'' \<and> (dport = 80 \<or> dport = 443)
                      then Reply (TcpReply 0x12) else NoReply),
             schedule = (\<lambda>n. rev [0..<n])\<rparr>"


subsection \<open>Notions for the enumeration\<close>

definition candidate :: "string \<Rightarrow> string \<Rightarrow> string" where
  "candidate domain sub = sub @ ''.'' @ domain"

definition confirms :: "env \<Rightarrow> string \<Rightarrow> bool" where
  "confirms e name = (case resolve e name of DnsRaises \<Rightarrow> False | Answers rs \<Rightarrow> rs \<noteq> [])"

definition labels :: "string list \<Rightarrow> string list" where
  "labels f = map strip (filter (\<lambda>line. strip line \<noteq> []) f)"

definition wordlist_labels :: "env \<Rightarrow> args \<Rightarrow> string list" where
  "wordlist_labels e a =
     (case fs e (or_str (wordlist a) DEFAULT_WORDLIST) of
        Absent \<Rightarrow> [] | Unreadable \<Rightarrow> [] | Lines f \<Rightarrow> labels f)"

definition hits :: "env \<Rightarrow> args \<Rightarrow> string \<Rightarrow> string set" where
  "hits e a d = set (filter (confirms e) (map (candidate d) (wordlist_labels e a)))"

definition crt_sh :: "env \<Rightarrow> string \<Rightarrow> http_result" where
  "crt_sh e d = http_get e (''https://crt.sh/?q='' @ d @ ''&output=json'')"

fun unavailable :: "http_result \<Rightarrow> bool" where
  "unavailable HttpRaises = True"
| "unavailable (Response status_code body) = (status_code \<noteq> 200 \<or> body = JsonError)"

fun query_raises :: "http_result \<Rightarrow> bool" where
  "query_raises HttpRaises = True"
| "query_raises (Response status_code JsonError) = (status_code = 200)"
| "query_raises (Response status_code (Records data)) = (status_code = 200 \<and> BadEntry \<in> set data)"

definition passive_add :: "string \<Rightarrow> http_result \<Rightarrow> string set \<Rightarrow> string set" where
  "passive_add d r S =
     (case r of
        HttpRaises \<Rightarrow> S
      | Response status_code body \<Rightarrow>
          if status_code = 200
          then (case body of JsonError \<Rightarrow> S | Records data \<Rightarrow> snd (add_entries d data S))
          else S)"

definition enumerate_outcome :: "env \<Rightarrow> args \<Rightarrow> string \<Rightarrow> py_error + string set" where
  "enumerate_outcome e a d =
     (case fs e (or_str (wordlist a) DEFAULT_WORDLIST) of
        Unreadable \<Rightarrow> Inl OSError
      | node \<Rightarrow>
          if node \<noteq> Absent \<and> \<not> pool_ok a then Inl ValueError
          else if \<not> save_ok e a (''subdomains_'' @ d @ ''.txt'') then Inl OSError
          else Inr (passive_add d (crt_sh e d) (hits e a d)))"



subsection \<open>Further concrete runs\<close>

definition args_silent :: args where
  "args_silent = args_top\<lparr>silent := True\<rparr>"

definition args_zero :: args where
  "args_zero = args_top\<lparr>threads := Some 0\<rparr>"

definition args_neg :: args where
  "args_neg = args_top\<lparr>threads := Some (- 1)\<rparr>"

definition env_A :: env where
  "env_A = \<lparr>fs = (\<lambda>path. if path = ''wordlists/subdomains.txt''
                          then Lines [''www'' @ [CHR 0x0A], ''mail'' @ [CHR 0x0A]] else Absent),
             writable = (\<lambda>path. True),
             resolve = (\<lambda>name. if name = ''www.example.com''
                               then Answers [''93.184.216.34''] else DnsRaises),
             http_get = (\<lambda>url. HttpRaises),
             sr1 = (\<lambda>dst dport flags timeout. NoReply),
             schedule = (\<lambda>n. rev [0..<n])\<rparr>"

definition env_C :: env where
  "env_C = \<lparr>fs = (\<lambda>path. Absent), writable = (\<lambda>path. True),
             resolve = (\<lambda>name. DnsRaises),
             http_get = (\<lambda>url. Response 200
                                  (Records [NameValue ''Sub.Example.com'', NameValue ''other.net''])),
             sr1 = (\<lambda>dst dport flags timeout. NoReply),
             schedule = (\<lambda>n. [0..<n])\<rparr>"

definition env_U :: env where
  "env_U = \<lparr>fs = (\<lambda>path. if path = ''wordlists/subdomains.txt''
                          then Lines [''WWW'' @ [CHR 0x0A]] else Absent),
             writable = (\<lambda>path. True),
             resolve = (\<lambda>name. if name = ''WWW.example.com''
                               then Answers [''93.184.216.34''] else DnsRaises),
             http_get = (\<lambda>url. Response 200 (Records [NameValue ''www.example.com''])),
             sr1 = (\<lambda>dst dport flags timeout. NoReply),
             schedule = (\<lambda>n. [0..<n])\<rparr>"

definition env_503 :: env where
  "env_503 = \<lparr>fs = (\<lambda>path. Absent), writable = (\<lambda>path. True),
               resolve = (\<lambda>name. DnsRaises),
               http_get = (\<lambda>url. Response 503 JsonError),
               sr1 = (\<lambda>dst dport flags timeout. NoReply),
               schedule = (\<lambda>n. [0..<n])\<rparr>"

definition env_D :: env where
  "env_D = \<lparr>fs = (\<lambda>path. Absent), writable = (\<lambda>path. True),
             resolve = (\<lambda>name. DnsRaises), http_get = (\<lambda>url. HttpRaises),
             sr1 = (\<lambda>dst dport flags timeout. Sr1Raises),
             schedule = (\<lambda>n. [0..<n])\<rparr>"


section \<open>Auxiliary facts\<close>

subsection \<open>Flags\<close>

lemma word_split_mask: "(x :: 'a::len word) = (x AND m) OR (x AND NOT m)"
proof -
  have "x = x AND (m OR NOT m)" by (simp only: bit.disj_cancel_right and.right_neutral)
  then show ?thesis by (simp only: bit.conj_disj_distrib)
qed

lemma flags_eq2: "(flags :: 9 word) = 0x12 \<longleftrightarrow> flags AND SYN = SYN \<and> flags AND ACK = ACK \<and> flags AND NOT (SYN OR ACK) = 0"
proof
  assume "flags = 0x12" then show "flags AND SYN = SYN \<and> flags AND ACK = ACK \<and> flags AND NOT (SYN OR ACK) = 0"
    by (simp add: SYN_def ACK_def)
next
  assume a: "flags AND SYN = SYN \<and> flags AND ACK = ACK \<and> flags AND NOT (SYN OR ACK) = 0"
  have "flags = (flags AND (SYN OR ACK)) OR (flags AND NOT (SYN OR ACK))"
    by (rule word_split_mask)
  also have "\<dots> = flags AND (SYN OR ACK)"
    using a by (simp only: or.right_neutral)
  also have "\<dots> = (flags AND SYN) OR (flags AND ACK)"
    by (simp only: bit.conj_disj_distrib)
  also have "\<dots> = SYN OR ACK" using a by simp
  also have "\<dots> = 0x12" by (simp add: SYN_def ACK_def)
  finally show "flags = 0x12" .
qed

lemma rst_not_synack: "(flags :: 9 word) AND RST = RST \<Longrightarrow> flags \<noteq> 0x12"
  by (auto simp: RST_def)

subsection \<open>The pool\<close>

lemma set_map_nth: "set order = {0..<length xs} \<Longrightarrow> set (map ((!) xs) order) = set xs"
proof -
  assume a: "set order = {0..<length xs}"
  have "set (map ((!) xs) order) = (!) xs ` {0..<length xs}" by (simp add: a)
  also have "\<dots> = set xs" by (simp add: nth_image)
  finally show ?thesis .
qed

lemma pool_fold: "fold (\<lambda>i. fn (xs ! i)) order s = fold fn (map ((!) xs) order) s"
  by (simp add: fold_map comp_def)


lemma valid_schedule_rev: "schedule e = (\<lambda>n. rev [0..<n]) \<Longrightarrow> valid_schedule e n"
  by (simp add: valid_schedule_def)


lemma scheduled_set:
  "valid_schedule e (length xs) \<Longrightarrow> set (map ((!) xs) (schedule e (length xs))) = set xs"
  by (simp only: valid_schedule_def set_map_nth)

lemma scheduled_length:
  "valid_schedule e n \<Longrightarrow> length (schedule e n) = n"
  using distinct_card[of "schedule e n"] by (simp add: valid_schedule_def)

subsection \<open>Saving\<close>

lemma save_results_fst:
  "fst (save_results e a f w) = (if save_ok e a f then Inr () else Inl OSError)"
  by (simp add: save_results_def save_ok_def Let_def)

lemma save_results_trace: "set w \<subseteq> set (snd (save_results e a f w))"
  by (auto simp: save_results_def log_def Let_def)

lemma save_results_probes: "probes (snd (save_results e a f w)) = probes w"
  by (simp add: save_results_def log_def Let_def probes_def)

subsection \<open>The port scan\<close>

lemma map_of_dict_set: "map_of (dict_set k v d) = (map_of d)(k \<mapsto> v)"
  by (induction d) (auto simp: fun_eq_iff)

lemma keys_dict_set: "fst ` set (dict_set k v d) = insert k (fst ` set d)"
  by (simp add: map_of_dict_set flip: dom_map_of_conv_image_fst)

lemma distinct_dict_set: "distinct (map fst d) \<Longrightarrow> distinct (map fst (dict_set k v d))"
  by (induction d) (auto simp: keys_dict_set)

lemma scan_port_step:
  "scan_port e t p (d, w) =
     (if syn_ack (sr1 e t p ''S'' TIMEOUT)
      then (dict_set p (service e t p) d, w @ [Sr1 t p ''S'' TIMEOUT, Sr1 t p ''A'' 1])
      else (d, w @ [Sr1 t p ''S'' TIMEOUT]))"
  by (cases "sr1 e t p ''S'' TIMEOUT"; cases "sr1 e t p ''A'' 1")
     (simp_all add: scan_port_def service_def Let_def)

lemma fold_scan_port_map_of:
  "map_of (fst (fold (scan_port e t) ps (d, w))) p =
     (if p \<in> set ps \<and> syn_ack (sr1 e t p ''S'' TIMEOUT) then Some (service e t p)
      else map_of d p)"
  by (induction ps arbitrary: d w) (auto simp: scan_port_step map_of_dict_set)

lemma fold_scan_port_distinct:
  "distinct (map fst d) \<Longrightarrow> distinct (map fst (fst (fold (scan_port e t) ps (d, w))))"
  by (induction ps arbitrary: d w) (auto simp: scan_port_step distinct_dict_set)

lemma fold_scan_port_keys:
  "fst ` set (fst (fold (scan_port e t) ps (d, w))) =
     fst ` set d \<union> {p \<in> set ps. syn_ack (sr1 e t p ''S'' TIMEOUT)}"
  by (induction ps arbitrary: d w) (auto simp: scan_port_step keys_dict_set)

lemma fold_scan_port_trace_mono:
  "set w \<subseteq> set (snd (fold (scan_port e t) ps (d, w)))"
proof (induction ps arbitrary: d w)
  case Nil
  show ?case by simp
next
  case (Cons p ps)
  show ?case
  proof (cases "syn_ack (sr1 e t p ''S'' TIMEOUT)")
    case True
    have "set (w @ [Sr1 t p ''S'' TIMEOUT, Sr1 t p ''A'' 1])
            \<subseteq> set (snd (fold (scan_port e t) ps (dict_set p (service e t p) d, w @ [Sr1 t p ''S'' TIMEOUT, Sr1 t p ''A'' 1])))"
      by (rule Cons.IH)
    then show ?thesis using True by (simp add: scan_port_step)
  next
    case False
    have "set (w @ [Sr1 t p ''S'' TIMEOUT])
            \<subseteq> set (snd (fold (scan_port e t) ps (d, w @ [Sr1 t p ''S'' TIMEOUT])))"
      by (rule Cons.IH)
    then show ?thesis using False by (simp add: scan_port_step)
  qed
qed

lemma fold_scan_port_probed:
  "p \<in> set ps \<Longrightarrow> Sr1 t p ''S'' TIMEOUT \<in> set (snd (fold (scan_port e t) ps (d, w)))"
proof (induction ps arbitrary: d w)
  case Nil
  then show ?case by simp
next
  case (Cons q ps)
  show ?case
  proof (cases "p = q")
    case True
    obtain d' w' where st: "scan_port e t q (d, w) = (d', w')" by (cases "scan_port e t q (d, w)")
    have "Sr1 t q ''S'' TIMEOUT \<in> set w'" using st by (auto simp: scan_port_step split: if_splits)
    moreover have "set w' \<subseteq> set (snd (fold (scan_port e t) ps (d', w')))"
      by (rule fold_scan_port_trace_mono)
    ultimately show ?thesis using True st by auto
  next
    case False
    then have "p \<in> set ps" using Cons.prems by simp
    obtain d' w' where st: "scan_port e t q (d, w) = (d', w')" by (cases "scan_port e t q (d, w)")
    show ?thesis using Cons.IH[OF \<open>p \<in> set ps\<close>, of d' w'] st by simp
  qed
qed

lemma fold_scan_port_all_raise:
  "\<forall>p\<in>set ps. \<not> syn_ack (sr1 e t p ''S'' TIMEOUT) \<Longrightarrow>
     fold (scan_port e t) ps (d, w) = (d, w @ map (\<lambda>p. Sr1 t p ''S'' TIMEOUT) ps)"
  by (induction ps arbitrary: d w) (auto simp: scan_port_step)


lemma scan_ports_unfold:
  assumes "pool_ok a"
  shows "scan_ports e a t =
     (let r = fold (scan_port e t) (map ((!) (port_range a)) (schedule e (length (port_range a))))
                ([], log a ''Starting port scan...'' ''info'' []);
          s = save_results e a (''ports_'' @ t @ ''.json'') (snd r @ [PrintTable (fst r)])
      in (if save_ok e a (''ports_'' @ t @ ''.json'') then Inr (fst r) else Inl OSError, snd s))"
proof -
  have n: "\<not> or_int (threads a) DEFAULT_THREADS \<le> 0" using assms by (simp add: pool_ok_def)
  show ?thesis
    unfolding scan_ports_def ThreadPoolExecutor_def Let_def pool_fold
    using n save_results_fst[of e a "''ports_'' @ t @ ''.json''"]
    by (auto simp: split_beta split: sum.splits prod.splits)
qed

lemma scan_ports_ok:
  assumes "valid_schedule e (length (port_range a))" "pool_ok a"
    "save_ok e a (''ports_'' @ t @ ''.json'')"
  shows "\<exists>ps w. set ps = set (port_range a) \<and> length ps = length (port_range a) \<and>
           fst (scan_ports e a t) = Inr (fst (fold (scan_port e t) ps ([], w))) \<and>
           set (snd (fold (scan_port e t) ps ([], w))) \<subseteq> set (snd (scan_ports e a t))"
proof -
  let ?ps = "map ((!) (port_range a)) (schedule e (length (port_range a)))"
  let ?w = "log a ''Starting port scan...'' ''info'' []"
  let ?r = "fold (scan_port e t) ?ps ([], ?w)"
  have 1: "set ?ps = set (port_range a)" using assms(1) by (rule scheduled_set)
  have 2: "length ?ps = length (port_range a)" using assms(1) by (simp add: scheduled_length)
  have 3: "fst (scan_ports e a t) = Inr (fst ?r)"
    using assms(3) by (simp add: scan_ports_unfold[OF assms(2)] Let_def)
  have "set (snd ?r) \<subseteq> set (snd ?r @ [PrintTable (fst ?r)])" by auto
  also have "\<dots> \<subseteq> set (snd (save_results e a (''ports_'' @ t @ ''.json'') (snd ?r @ [PrintTable (fst ?r)])))"
    by (rule save_results_trace)
  also have "\<dots> = set (snd (scan_ports e a t))"
    by (simp add: scan_ports_unfold[OF assms(2)] Let_def)
  finally have 4: "set (snd ?r) \<subseteq> set (snd (scan_ports e a t))" .
  from 1 2 3 4 show ?thesis by blast
qed


lemma scan_ports_probes:
  assumes "pool_ok a"
  shows "probes (snd (scan_ports e a t)) =
           probes (snd (fold (scan_port e t)
                          (map ((!) (port_range a)) (schedule e (length (port_range a))))
                          ([], log a ''Starting port scan...'' ''info'' [])))"
  by (simp add: scan_ports_unfold[OF assms] Let_def save_results_probes)
     (simp add: probes_def)

lemma scan_ports_all_closed:
  assumes "valid_schedule e (length (port_range a))" and "pool_ok a"
    and "save_ok e a (''ports_'' @ t @ ''.json'')"
    and "\<forall>p\<in>set (port_range a). \<not> syn_ack (sr1 e t p ''S'' TIMEOUT)"
  shows "fst (scan_ports e a t) = Inr [] \<and>
         length (probes (snd (scan_ports e a t))) = length (port_range a)"
proof -
  let ?ps = "map ((!) (port_range a)) (schedule e (length (port_range a)))"
  let ?w = "log a ''Starting port scan...'' ''info'' []"
  have 1: "set ?ps = set (port_range a)" using assms(1) by (rule scheduled_set)
  have 2: "length ?ps = length (port_range a)" using assms(1) by (simp add: scheduled_length)
  have "\<forall>p\<in>set ?ps. \<not> syn_ack (sr1 e t p ''S'' TIMEOUT)" using assms(4) 1 by blast
  then have f: "fold (scan_port e t) ?ps ([], ?w) = ([], ?w @ map (\<lambda>p. Sr1 t p ''S'' TIMEOUT) ?ps)"
    by (rule fold_scan_port_all_raise)
  have 3: "fst (scan_ports e a t) = Inr []"
    using assms(3) by (simp add: scan_ports_unfold[OF assms(2)] Let_def f)
  have "probes (snd (scan_ports e a t)) = probes (?w @ map (\<lambda>p. Sr1 t p ''S'' TIMEOUT) ?ps)"
    by (simp only: scan_ports_probes[OF assms(2)] f snd_conv)
  also have "\<dots> = map (\<lambda>p. Sr1 t p ''S'' TIMEOUT) ?ps"
    by (simp add: probes_def log_def filter_map comp_def)
  finally have "length (probes (snd (scan_ports e a t))) = length (port_range a)"
    using 2 by simp
  with 3 show ?thesis by simp
qed

lemma scan_ports_no_pool:
  "\<not> pool_ok a \<Longrightarrow>
     scan_ports e a t = (Inl ValueError, log a ''Starting port scan...'' ''info'' [])"
  by (simp add: scan_ports_def ThreadPoolExecutor_def pool_ok_def Let_def)

subsection \<open>The enumeration\<close>

lemma fold_insert_same: "fold (\<lambda>rdata S. insert x S) rs S = (if rs = [] then S else insert x S)"
  by (induction rs arbitrary: S) auto

lemma check_subdomain_step:
  "check_subdomain e d sub (S, w) =
     (if confirms e (candidate d sub) then insert (candidate d sub) S else S,
      w @ [DnsQuery (candidate d sub)])"
  by (auto simp: check_subdomain_def confirms_def candidate_def Let_def fold_insert_same
           split: dns_answer.splits)

lemma fold_check_subdomain:
  "fold (check_subdomain e d) subs (S, w) =
     (S \<union> set (filter (confirms e) (map (candidate d) subs)),
      w @ map (\<lambda>sub. DnsQuery (candidate d sub)) subs)"
  by (induction subs arbitrary: S w) (auto simp: check_subdomain_step)

lemma set_filter_map_cong:
  "set xs = set ys \<Longrightarrow> set (filter P (map f xs)) = set (filter P (map f ys))"
  by auto

lemma wordlist_based_fst:
  assumes "valid_schedule e (length (wordlist_labels e a))"
  shows "fst (wordlist_based e a d n ({}, w)) =
     (case fs e (or_str (wordlist a) DEFAULT_WORDLIST) of
        Absent \<Rightarrow> Inr {}
      | Unreadable \<Rightarrow> Inl OSError
      | Lines f \<Rightarrow> if n \<le> 0 then Inl ValueError else Inr (hits e a d))"
proof (cases "fs e (or_str (wordlist a) DEFAULT_WORDLIST)")
  case Absent
  then show ?thesis by (simp add: wordlist_based_def)
next
  case Unreadable
  then show ?thesis by (simp add: wordlist_based_def)
next
  case (Lines f)
  then have wl: "wordlist_labels e a = labels f" by (simp add: wordlist_labels_def)
  have v: "valid_schedule e (length (labels f))" using assms wl by simp
  have s: "set (map ((!) (labels f)) (schedule e (length (labels f)))) = set (labels f)"
    using v by (rule scheduled_set)
  have h: "set (filter (confirms e) (map (candidate d) (map ((!) (labels f)) (schedule e (length (labels f))))))
             = hits e a d"
    unfolding hits_def wl by (rule set_filter_map_cong) (rule s)
  show ?thesis
    using Lines h
    by (simp add: wordlist_based_def ThreadPoolExecutor_def pool_fold fold_check_subdomain
                  labels_def[symmetric] Let_def)
qed

lemma wordlist_based_error_trace:
  "fst (wordlist_based e a d n (S, w)) = Inl err \<Longrightarrow> snd (wordlist_based e a d n (S, w)) = w"
  by (auto simp: wordlist_based_def Let_def split: file_node.splits sum.splits prod.splits)

lemma wordlist_based_trace: "set w \<subseteq> set (snd (wordlist_based e a d n (S, w)))"
  by (auto simp: wordlist_based_def Let_def ThreadPoolExecutor_def pool_fold fold_check_subdomain
           split: file_node.splits sum.splits prod.splits)

lemma add_entries_mono: "S \<subseteq> snd (add_entries d es S)"
proof (induction d es S rule: add_entries.induct)
  case (3 domain v data subdomains)
  then show ?case by (auto simp: Let_def split: if_splits)
qed simp_all

lemma add_entries_names:
  "add_entries d (map NameValue vs) S =
     (True, S \<union> {lower v |v. v \<in> set vs \<and> endswith (lower v) (''.'' @ d)})"
  by (induction vs arbitrary: S) (auto simp: Let_def)

lemma add_entries_flag: "fst (add_entries d es S) = (BadEntry \<notin> set es)"
  by (induction d es S rule: add_entries.induct) (auto simp: Let_def)

lemma api_fallback_fst: "fst (api_fallback e a d (S, w)) = passive_add d (crt_sh e d) S"
  by (auto simp: api_fallback_def passive_add_def crt_sh_def Let_def
           split: http_result.splits json.splits prod.splits bool.splits)

lemma log_trace: "set w \<subseteq> set (log a m l w)"
  by (auto simp: log_def)

lemma log_probes: "probes (log a m l w) = probes w"
  by (simp add: log_def probes_def)

lemma api_fallback_trace: "set w \<subseteq> set (snd (api_fallback e a d (S, w)))"
  using log_trace[of "w @ [HttpGet (''https://crt.sh/?q='' @ d @ ''&output=json'')]" a "''API fallback failed''" "''warning''"]
  by (auto simp: api_fallback_def Let_def
           split: http_result.splits json.splits prod.splits bool.splits)

lemma api_fallback_warning:
  assumes "query_raises (crt_sh e d)" and "\<not> silent a"
  shows "Print ''[WARNING]'' ''API fallback failed'' \<in> set (snd (api_fallback e a d (S, w)))"
proof (cases "crt_sh e d")
  case HttpRaises
  then show ?thesis using assms(2) by (simp add: api_fallback_def crt_sh_def log_def Let_def)
next
  case (Response st body)
  show ?thesis
  proof (cases body)
    case JsonError
    then show ?thesis using Response assms
      by (simp add: api_fallback_def crt_sh_def log_def Let_def)
  next
    case (Records data)
    then have "fst (add_entries d data S) = False" using Response assms(1)
      by (simp add: add_entries_flag)
    then obtain S' where "add_entries d data S = (False, S')"
      by (cases "add_entries d data S") simp
    then show ?thesis using Response Records assms
      by (simp add: api_fallback_def crt_sh_def log_def Let_def)
  qed
qed

lemma enumerate_unfold:
  "enumerate_subdomains e a d =
     (let r1 = wordlist_based e a d (or_int (threads a) DEFAULT_THREADS)
                 ({}, log a ''Starting subdomain enumeration...'' ''info'' [])
      in case fst r1 of
           Inl err \<Rightarrow> (Inl err, snd r1)
         | Inr S1 \<Rightarrow>
             let r2 = api_fallback e a d (S1, snd r1);
                 r3 = save_results e a (''subdomains_'' @ d @ ''.txt'') (snd r2)
             in (if save_ok e a (''subdomains_'' @ d @ ''.txt'') then Inr (fst r2)
                 else Inl OSError, snd r3))"
  by (auto simp: enumerate_subdomains_def save_results_def save_ok_def Let_def
           split: sum.splits prod.splits)

lemma enumerate_fst:
  assumes "valid_schedule e (length (wordlist_labels e a))"
  shows "fst (enumerate_subdomains e a d) = enumerate_outcome e a d"
proof -
  have h0: "fs e (or_str (wordlist a) DEFAULT_WORDLIST) = Absent \<Longrightarrow> hits e a d = {}"
    by (simp add: hits_def wordlist_labels_def)
  show ?thesis
    unfolding enumerate_unfold Let_def
    by (cases "fs e (or_str (wordlist a) DEFAULT_WORDLIST)")
       (auto simp: wordlist_based_fst[OF assms] enumerate_outcome_def api_fallback_fst pool_ok_def h0
             split: sum.splits)
qed

lemma enumerate_outcome_schedule:
  "enumerate_outcome (e\<lparr>schedule := s\<rparr>) a d = enumerate_outcome e a d"
  by (simp add: enumerate_outcome_def hits_def wordlist_labels_def confirms_def crt_sh_def
                save_ok_def cong: file_node.case_cong)

lemma wordlist_labels_schedule:
  "wordlist_labels (e\<lparr>schedule := s\<rparr>) a = wordlist_labels e a"
  by (simp add: wordlist_labels_def)


lemma enumerate_no_pool:
  assumes "fs e (or_str (wordlist a) DEFAULT_WORDLIST) = Lines f" and "\<not> pool_ok a"
  shows "enumerate_subdomains e a d =
           (Inl ValueError, log a ''Starting subdomain enumeration...'' ''info'' [])"
  using assms
  by (simp add: enumerate_subdomains_def wordlist_based_def ThreadPoolExecutor_def pool_ok_def
                Let_def)

lemma enumerate_trace_api:
  assumes "fst (enumerate_subdomains e a d) = Inr S"
  shows "\<exists>S1 w1. set (snd (api_fallback e a d (S1, w1))) \<subseteq> set (snd (enumerate_subdomains e a d))"
proof -
  let ?r1 = "wordlist_based e a d (or_int (threads a) DEFAULT_THREADS)
                 ({}, log a ''Starting subdomain enumeration...'' ''info'' [])"
  from assms obtain S1 where s1: "fst ?r1 = Inr S1"
    by (cases "fst ?r1") (simp_all add: enumerate_unfold Let_def)
  let ?r2 = "api_fallback e a d (S1, snd ?r1)"
  have "snd (enumerate_subdomains e a d) =
          snd (save_results e a (''subdomains_'' @ d @ ''.txt'') (snd ?r2))"
    using s1 by (simp add: enumerate_unfold Let_def)
  then have "set (snd ?r2) \<subseteq> set (snd (enumerate_subdomains e a d))"
    by (simp only: save_results_trace)
  then show ?thesis by blast
qed

subsection \<open>Evaluations\<close>

lemma labels_A: "labels [''www'' @ [CHR 0x0A], ''mail'' @ [CHR 0x0A]] = [''www'', ''mail'']"
  by (simp add: labels_def strip_def isspace_def)

lemma lower_ex: "lower ''WWW.example.com'' = ''www.example.com''"
  by (simp add: lower_def lower_char_def char_of_def bit_Suc_0_iff)

lemma lower_ex2: "lower ''Sub.Example.com'' = ''sub.example.com''"
  by (simp add: lower_def lower_char_def char_of_def bit_Suc_0_iff)

lemma ends_ex: "endswith ''sub.example.com'' ''.example.com''" "\<not> endswith ''other.net'' ''.example.com''"
  by (simp_all add: endswith_def)

lemma trace_503: "enumerate_subdomains env_503 args_top ''example.com'' = (Inr {}, [HttpGet ''https://crt.sh/?q=example.com&output=json''])"
  by (simp add: enumerate_subdomains_def wordlist_based_def api_fallback_def save_results_def
       log_def env_503_def args_top_def or_str_def or_int_def DEFAULT_WORDLIST_def Let_def)

lemma trace_silent: "enumerate_subdomains env_B args_silent ''example.com'' = (Inr {}, [HttpGet ''https://crt.sh/?q=example.com&output=json''])"
  by (simp add: enumerate_subdomains_def wordlist_based_def api_fallback_def save_results_def
       log_def env_B_def args_top_def args_silent_def or_str_def or_int_def DEFAULT_WORDLIST_def Let_def)

lemma neg_nowordlist: "enumerate_subdomains env_B args_neg ''example.com'' =
   (Inr {}, [HttpGet ''https://crt.sh/?q=example.com&output=json'', Print ''[WARNING]'' ''API fallback failed''])"
  by (simp add: enumerate_subdomains_def wordlist_based_def api_fallback_def save_results_def
       log_def env_B_def args_top_def args_neg_def or_str_def or_int_def DEFAULT_WORDLIST_def Let_def)




section \<open>The port scan\<close>

text \<open>
  Claim C2. When \<^verbatim>\<open>scan_ports\<close> returns, the ports that have an entry in the returned
  map are exactly the ports of the selected range whose SYN probe was classified open
  (the test \<^verbatim>\<open>resp and resp.haslayer(TCP) and resp[TCP].flags == 0x12\<close> held). A port
  whose probe gave no reply, another reply or an exception has no entry at all.
\<close>

theorem open_ports_recorded_iff_open:
  assumes "valid_schedule e (length (port_range a))" and "pool_ok a"
    and "save_ok e a (''ports_'' @ t @ ''.json'')"
  shows "\<exists>d. fst (scan_ports e a t) = Inr d \<and>
           fst ` set d = {p \<in> set (port_range a). syn_ack (sr1 e t p ''S'' TIMEOUT)}"
proof -
  from scan_ports_ok[OF assms] obtain ps w where
    ps: "set ps = set (port_range a)" and
    r: "fst (scan_ports e a t) = Inr (fst (fold (scan_port e t) ps ([], w)))" by blast
  have "fst ` set (fst (fold (scan_port e t) ps ([], w))) =
          {p \<in> set (port_range a). syn_ack (sr1 e t p ''S'' TIMEOUT)}"
    by (simp add: fold_scan_port_keys ps)
  with r show ?thesis by blast
qed

theorem open_ports_recorded_iff_open_witness:
  "\<exists>d. fst (scan_ports env_B args_top ''192.0.2.1'') = Inr d \<and> fst ` set d = {80, 443}"
proof -
  have v: "valid_schedule env_B (length (port_range args_top))"
    by (rule valid_schedule_rev) (simp add: env_B_def)
  have p: "pool_ok args_top"
    by (simp add: pool_ok_def args_top_def or_int_def DEFAULT_THREADS_def)
  have s: "save_ok env_B args_top (''ports_'' @ ''192.0.2.1'' @ ''.json'')"
    by (simp add: save_ok_def args_top_def)
  have "{p \<in> set (port_range args_top).
           syn_ack (sr1 env_B ''192.0.2.1'' p ''S'' TIMEOUT)} = {80, 443}"
    by (auto simp: port_range_def args_top_def env_B_def)
  with open_ports_recorded_iff_open[OF v p s] show ?thesis by simp
qed

text \<open>
  Claim C3. One run of \<^verbatim>\<open>scan_port\<close> on an empty map records the port exactly when
  the reply to the SYN probe passes the test of the code, and a reply passes it exactly
  when it has a TCP layer whose flags are SYN and ACK and no other flag. No reply, an
  exception, a reply without TCP layer, a reply with RST set, and a reply with SYN, ACK
  and a further flag are all not open.
\<close>

theorem syn_ack_classification:
  "(fst (scan_port e t p ([], w)) \<noteq> []) = syn_ack (sr1 e t p ''S'' TIMEOUT) \<and>
   syn_ack r = (\<exists>flags. r = Reply (TcpReply flags) \<and> flags AND SYN = SYN \<and>
                  flags AND ACK = ACK \<and> flags AND NOT (SYN OR ACK) = 0) \<and>
   \<not> syn_ack NoReply \<and> \<not> syn_ack Sr1Raises \<and> \<not> syn_ack (Reply NonTcpReply) \<and>
   (fl AND RST = RST \<longrightarrow> \<not> syn_ack (Reply (TcpReply fl))) \<and>
   (fl AND SYN = SYN \<and> fl AND ACK = ACK \<and> fl \<noteq> (SYN OR ACK)
      \<longrightarrow> \<not> syn_ack (Reply (TcpReply fl)))"
proof -
  have 1: "(fst (scan_port e t p ([], w)) \<noteq> []) = syn_ack (sr1 e t p ''S'' TIMEOUT)"
    by (simp add: scan_port_step)
  have 2: "syn_ack r = (\<exists>flags. r = Reply (TcpReply flags) \<and> flags AND SYN = SYN \<and>
                  flags AND ACK = ACK \<and> flags AND NOT (SYN OR ACK) = 0)"
  proof (cases r)
    case (Reply pkt)
    then show ?thesis by (cases pkt) (simp_all add: flags_eq2)
  qed simp_all
  have 3: "fl AND RST = RST \<longrightarrow> \<not> syn_ack (Reply (TcpReply fl))"
    using rst_not_synack[of fl] by simp
  have 4: "fl AND SYN = SYN \<and> fl AND ACK = ACK \<and> fl \<noteq> (SYN OR ACK)
             \<longrightarrow> \<not> syn_ack (Reply (TcpReply fl))"
    by (simp add: SYN_def ACK_def)
  from 1 2 3 4 show ?thesis by simp
qed

theorem syn_ack_classification_witness:
  "(0x14 :: 9 word) AND RST = RST \<and> \<not> syn_ack (Reply (TcpReply 0x14)) \<and>
   (0x52 :: 9 word) AND SYN = SYN \<and> (0x52 :: 9 word) AND ACK = ACK \<and>
   (0x52 :: 9 word) \<noteq> (SYN OR ACK) \<and> \<not> syn_ack (Reply (TcpReply 0x52)) \<and>
   syn_ack (Reply (TcpReply (SYN OR ACK)))"
  using syn_ack_classification[of env_B "''192.0.2.1''" 80 "[]" "Reply (TcpReply (SYN OR ACK))" "0x14"]
        syn_ack_classification[of env_B "''192.0.2.1''" 80 "[]" "Reply (TcpReply (SYN OR ACK))" "0x52"]
  by (simp add: SYN_def ACK_def RST_def)



text \<open>
  Claim C10. Every value of the returned map is \<^verbatim>\<open>"unknown"\<close> or \<^verbatim>\<open>"detected"\<close>, and
  every key is a port of the selected range: 1 to 1024 with \<^verbatim>\<open>--top-ports\<close>, 0 to
  65535 without.
\<close>

theorem port_result_labels_and_keys:
  assumes "valid_schedule e (length (port_range a))" and "pool_ok a"
    and "save_ok e a (''ports_'' @ t @ ''.json'')"
  shows "\<exists>d. fst (scan_ports e a t) = Inr d \<and>
           snd ` set d \<subseteq> {''unknown'', ''detected''} \<and>
           fst ` set d \<subseteq> (if top_ports a then {1..1024} else {0..65535})"
proof -
  from scan_ports_ok[OF assms(1-3)] obtain ps w where
    ps: "set ps = set (port_range a)" and
    r: "fst (scan_ports e a t) = Inr (fst (fold (scan_port e t) ps ([], w)))" by blast
  let ?d = "fst (fold (scan_port e t) ps ([], w))"
  have dist: "distinct (map fst ?d)" by (rule fold_scan_port_distinct) simp
  have vals: "snd ` set ?d \<subseteq> {''unknown'', ''detected''}"
  proof
    fix v assume "v \<in> snd ` set ?d"
    then obtain k where "(k, v) \<in> set ?d" by auto
    then have "map_of ?d k = Some v" using dist by simp
    then have "v = service e t k" by (simp add: fold_scan_port_map_of split: if_splits)
    then show "v \<in> {''unknown'', ''detected''}" by (simp add: service_def)
  qed
  have "fst ` set ?d \<subseteq> set (port_range a)" by (auto simp: fold_scan_port_keys ps)
  also have "\<dots> \<subseteq> (if top_ports a then {1..1024} else {0..65535})"
    by (auto simp: port_range_def)
  finally have keys: "fst ` set ?d \<subseteq> (if top_ports a then {1..1024} else {0..65535})" .
  from r vals keys show ?thesis by blast
qed

theorem port_result_labels_and_keys_witness:
  "\<exists>d. fst (scan_ports env_B args_top ''192.0.2.1'') = Inr d \<and>
        snd ` set d \<subseteq> {''unknown'', ''detected''} \<and> fst ` set d \<subseteq> {1..1024}"
proof -
  have v: "valid_schedule env_B (length (port_range args_top))"
    by (rule valid_schedule_rev) (simp add: env_B_def)
  have p: "pool_ok args_top"
    by (simp add: pool_ok_def args_top_def or_int_def DEFAULT_THREADS_def)
  have s: "save_ok env_B args_top (''ports_'' @ ''192.0.2.1'' @ ''.json'')"
    by (simp add: save_ok_def args_top_def)
  have "top_ports args_top" by (simp add: args_top_def)
  with port_result_labels_and_keys[OF v p s] show ?thesis by simp
qed

section \<open>The subdomain enumeration\<close>

text \<open>C1\<close>

theorem wordlist_only_returns_confirmed_candidates:
  assumes "fs e (or_str (wordlist a) DEFAULT_WORDLIST) = Lines f"
    and "W = map strip (filter (\<lambda>line. strip line \<noteq> []) f)"
    and "valid_schedule e (length W)"
    and "unavailable (crt_sh e d)"
    and "pool_ok a" and "save_ok e a (''subdomains_'' @ d @ ''.txt'')"
  shows "fst (enumerate_subdomains e a d) =
           Inr {l @ ''.'' @ d |l. l \<in> set W \<and> confirms e (l @ ''.'' @ d)}"
proof -
  have wl: "wordlist_labels e a = W" using assms(1,2) by (simp add: wordlist_labels_def labels_def)
  have v: "valid_schedule e (length (wordlist_labels e a))" using assms(3) wl by simp
  have p: "passive_add d (crt_sh e d) S = S" for S
    using assms(4) by (cases "crt_sh e d") (auto simp: passive_add_def)
  have h: "hits e a d = {l @ ''.'' @ d |l. l \<in> set W \<and> confirms e (l @ ''.'' @ d)}"
    by (auto simp: hits_def wl candidate_def)
  show ?thesis
    using assms(1,5,6) by (simp add: enumerate_fst[OF v] enumerate_outcome_def p h)
qed

theorem wordlist_only_returns_confirmed_candidates_witness:
  "fst (enumerate_subdomains env_A args_top ''example.com'') = Inr {''www.example.com''}"
proof -
  have f: "fs env_A (or_str (wordlist args_top) DEFAULT_WORDLIST)
             = Lines [''www'' @ [CHR 0x0A], ''mail'' @ [CHR 0x0A]]"
    by (simp add: env_A_def args_top_def or_str_def DEFAULT_WORDLIST_def)
  have w: "[''www'', ''mail''] = map strip (filter (\<lambda>line. strip line \<noteq> [])
             [''www'' @ [CHR 0x0A], ''mail'' @ [CHR 0x0A]])"
    using labels_A by (simp add: labels_def)
  have v: "valid_schedule env_A (length [''www'', ''mail''])"
    by (rule valid_schedule_rev) (simp add: env_A_def)
  have u: "unavailable (crt_sh env_A ''example.com'')"
    by (simp add: crt_sh_def env_A_def)
  have p: "pool_ok args_top"
    by (simp add: pool_ok_def args_top_def or_int_def DEFAULT_THREADS_def)
  have s: "save_ok env_A args_top (''subdomains_'' @ ''example.com'' @ ''.txt'')"
    by (simp add: save_ok_def args_top_def)
  have "{l @ ''.'' @ ''example.com'' |l. l \<in> set [''www'', ''mail''] \<and>
            confirms env_A (l @ ''.'' @ ''example.com'')} = {''www.example.com''}"
    by (auto simp: confirms_def env_A_def)
  with wordlist_only_returns_confirmed_candidates[OF f w v u p s] show ?thesis by simp
qed


end
